theory Spec2Isabelle
  imports Main "HOL-Library.Sublist" "HOL-Library.Word" "HOL-Library.Product_Lexorder"
begin

section \<open>Python strings\<close>

text \<open>
  A Python \<open>str\<close> is a sequence of Unicode code points, and every string operation of
  \<open>main.py\<close> (slicing, \<open>len\<close>, \<open>strip\<close>, \<open>split\<close>, the regular expression) counts code
  points. A string is therefore a list of code points, each a natural number; \<open>py\<close>
  turns an ASCII literal into such a string.
\<close>

type_synonym codepoint = nat
type_synonym pystr = "codepoint list"

definition py :: "string \<Rightarrow> pystr" where
  "py s = map of_char s"

text \<open>
  \<open>str.isspace\<close> of a single code point, the test behind \<open>str.strip()\<close> and
  \<open>str.split()\<close> without arguments: the Unicode white space characters.
\<close>

definition isspace :: "codepoint \<Rightarrow> bool" where
  "isspace c \<longleftrightarrow>
     (9 \<le> c \<and> c \<le> 13) \<or> (28 \<le> c \<and> c \<le> 32) \<or> c = 133 \<or> c = 160 \<or> c = 5760 \<or>
     (8192 \<le> c \<and> c \<le> 8202) \<or> c = 8232 \<or> c = 8233 \<or> c = 8239 \<or> c = 8287 \<or> c = 12288"

text \<open>The line boundaries of \<open>str.splitlines()\<close>.\<close>

definition islinebreak :: "codepoint \<Rightarrow> bool" where
  "islinebreak c \<longleftrightarrow>
     (10 \<le> c \<and> c \<le> 13) \<or> (28 \<le> c \<and> c \<le> 30) \<or> c = 133 \<or> c = 8232 \<or> c = 8233"

text \<open>\<open>s.strip()\<close>: white space removed from both ends.\<close>

definition lstrip :: "pystr \<Rightarrow> pystr" where
  "lstrip s = dropWhile isspace s"

definition rstrip :: "pystr \<Rightarrow> pystr" where
  "rstrip s = rev (dropWhile isspace (rev s))"

definition strip :: "pystr \<Rightarrow> pystr" where
  "strip s = rstrip (lstrip s)"

text \<open>A string that is empty or consists of white space only.\<close>

definition blank :: "pystr \<Rightarrow> bool" where
  "blank s \<longleftrightarrow> (\<forall>c \<in> set s. isspace c)"

text \<open>
  \<open>s.splitlines()\<close>: the text up to the next line boundary is a line, the boundary is
  skipped (a carriage return followed by a line feed counts as one boundary), and a
  boundary at the very end opens no further line.
\<close>

function splitlines :: "pystr \<Rightarrow> pystr list" where
  "splitlines [] = []"
| "splitlines (c # cs) =
     (let line = takeWhile (\<lambda>x. \<not> islinebreak x) (c # cs);
          rest = dropWhile (\<lambda>x. \<not> islinebreak x) (c # cs)
      in case rest of
           [] \<Rightarrow> [line]
         | b # r \<Rightarrow>
             (case r of
                [] \<Rightarrow> [line]
              | n # r' \<Rightarrow> line # splitlines (if b = 13 \<and> n = 10 then r' else r)))"
  by pat_completeness auto
termination
proof (relation "measure length", goal_cases)
  case 1
  show ?case by simp
next
  case (2 c cs line rest b r n r')
  have "length rest \<le> length (c # cs)"
    unfolding 2(2) by (rule length_dropWhile_le)
  with 2(3,4) show ?case by (auto split: if_splits)
qed

text \<open>
  \<open>s.split()\<close> without arguments: the maximal runs of characters that are not white
  space, in order.
\<close>

function split_ws :: "pystr \<Rightarrow> pystr list" where
  "split_ws s =
     (case dropWhile isspace s of
        [] \<Rightarrow> []
      | c # cs \<Rightarrow>
          takeWhile (\<lambda>x. \<not> isspace x) (c # cs) #
          split_ws (dropWhile (\<lambda>x. \<not> isspace x) cs))"
  by pat_completeness auto
termination
proof (relation "measure length", goal_cases)
  case 1
  show ?case by simp
next
  case (2 s c cs)
  have "length (dropWhile (\<lambda>x. \<not> isspace x) cs) \<le> length cs"
    by (rule length_dropWhile_le)
  moreover have "length (dropWhile isspace s) \<le> length s"
    by (rule length_dropWhile_le)
  ultimately show ?case using 2 by simp
qed

text \<open>A token: a non-empty string without white space.\<close>

definition token :: "pystr \<Rightarrow> bool" where
  "token w \<longleftrightarrow> w \<noteq> [] \<and> (\<forall>c \<in> set w. \<not> isspace c)"

text \<open>\<open>sep.join(parts)\<close>.\<close>

fun join :: "pystr \<Rightarrow> pystr list \<Rightarrow> pystr" where
  "join sep [] = []"
| "join sep [p] = p"
| "join sep (p # q # ps) = p @ sep @ join sep (q # ps)"

text \<open>\<open>k in s\<close> for strings: \<open>k\<close> occurs in \<open>s\<close> as a contiguous substring.\<close>

fun contains :: "pystr \<Rightarrow> pystr \<Rightarrow> bool" where
  "contains k [] \<longleftrightarrow> k = []"
| "contains k (c # cs) \<longleftrightarrow> prefix k (c # cs) \<or> contains k cs"


section \<open>The Python runtime\<close>

text \<open>
  Two things the generator uses are fixed by the interpreter, not by \<open>main.py\<close>:
  \<open>str.lower()\<close>, which follows the Unicode case tables, and the order in which a
  \<open>set\<close> of strings is iterated, which depends on the hash seed of the process. Both
  are parameters of the model. \<open>set_order xs\<close> is the iteration order of the set that
  results from adding the elements of \<open>xs\<close> one after the other; a set is represented
  by that list. All that is known of it is \<open>set_order_ok\<close>: it enumerates the elements
  once each.
\<close>

record runtime =
  lower :: "pystr \<Rightarrow> pystr"
  set_order :: "pystr list \<Rightarrow> pystr list"

definition set_order_ok :: "runtime \<Rightarrow> bool" where
  "set_order_ok rt \<longleftrightarrow> (\<forall>xs. distinct (set_order rt xs) \<and> set (set_order rt xs) = set xs)"

text \<open>
  \<open>a.intersection(b)\<close> on two sets: the smaller operand (\<open>b\<close> when the sizes are equal)
  is iterated and its elements found in the other are added to a new set.
\<close>

definition intersection :: "runtime \<Rightarrow> pystr list \<Rightarrow> pystr list \<Rightarrow> pystr list" where
  "intersection rt a b =
     (if length b > length a then set_order rt (filter (\<lambda>w. w \<in> set b) a)
      else set_order rt (filter (\<lambda>w. w \<in> set a) b))"

text \<open>
  A runtime to evaluate the model with: lower-casing of the ASCII letters, as Python does
  on ASCII text, and sets that iterate in insertion order, one of the admissible orders.
\<close>

definition ascii_lower :: "pystr \<Rightarrow> pystr" where
  "ascii_lower s = map (\<lambda>c. if 65 \<le> c \<and> c \<le> 90 then c + 32 else c) s"

definition ascii_runtime :: runtime where
  "ascii_runtime = \<lparr> lower = ascii_lower, set_order = remdups \<rparr>"

section \<open>The heuristic content generator\<close>

record GeneratedContent =
  title :: pystr
  summary :: pystr
  bullets :: "pystr list"
  cover_letter :: pystr
  header :: pystr
  footer :: pystr
  advice :: pystr

subsection \<open>Keyword extraction\<close>

text \<open>The character class \<open>[A-Za-z]\<close>.\<close>

definition ascii_letter :: "codepoint \<Rightarrow> bool" where
  "ascii_letter c \<longleftrightarrow> (65 \<le> c \<and> c \<le> 90) \<or> (97 \<le> c \<and> c \<le> 122)"

text \<open>
  \<open>re.findall(r"[A-Za-z]{4,}", s)\<close>: at each position the greedy pattern takes all the
  letters that follow; with four or more it matches and the scan resumes behind the
  match, otherwise the scan moves on by one character.
\<close>

function findall :: "pystr \<Rightarrow> pystr list" where
  "findall [] = []"
| "findall (c # cs) =
     (let m = takeWhile ascii_letter (c # cs)
      in if 4 \<le> length m then m # findall (drop (length m) (c # cs))
         else findall cs)"
  by pat_completeness auto
termination
  by (relation "measure length") auto

text \<open>
  The dictionary \<open>common\<close>: a Python \<open>dict\<close> keeps its keys in the order of their first
  insertion, so it is an association list; assigning to a key that is present replaces
  the value where it stands.
\<close>

type_synonym counts = "(pystr \<times> nat) list"

definition dict_get :: "counts \<Rightarrow> pystr \<Rightarrow> nat \<Rightarrow> nat" where
  "dict_get d k dflt = (case map_of d k of None \<Rightarrow> dflt | Some v \<Rightarrow> v)"

fun dict_set :: "counts \<Rightarrow> pystr \<Rightarrow> nat \<Rightarrow> counts" where
  "dict_set [] k v = [(k, v)]"
| "dict_set (p # ps) k v = (if fst p = k then (k, v) # ps else p # dict_set ps k v)"

definition count_words :: "pystr list \<Rightarrow> counts" where
  "count_words ws = fold (\<lambda>w common. dict_set common w (dict_get common w 0 + 1)) ws []"

text \<open>
  \<open>sorted(items, key=..., reverse=True)\<close>: a stable sort into descending order of the
  key, items of equal key staying in the order they had.
\<close>

definition sorted_reverse :: "('a \<Rightarrow> nat) \<Rightarrow> 'a list \<Rightarrow> 'a list" where
  "sorted_reverse key xs = sort_key (\<lambda>x. - int (key x)) xs"

definition keywords_of :: "runtime \<Rightarrow> pystr \<Rightarrow> pystr list" where
  "keywords_of rt text =
     (let words = findall (lower rt text);
          common = count_words words
      in map fst (take 10 (sorted_reverse snd common)))"

subsection \<open>The content bundle\<close>

definition bullet :: "pystr \<Rightarrow> pystr \<Rightarrow> pystr" where
  "bullet k line = py ''Delivered '' @ k @ py ''-focused outcomes: '' @ take 140 line"

text \<open>
  The inner loop over the keywords for one line of user material: the first keyword
  that occurs in the lower-cased line, while fewer than 8 bullets are collected, adds a
  bullet and ends the loop.
\<close>

fun scan_keywords :: "runtime \<Rightarrow> pystr list \<Rightarrow> pystr \<Rightarrow> pystr list \<Rightarrow> pystr list" where
  "scan_keywords rt [] line bs = bs"
| "scan_keywords rt (k # ks) line bs =
     (if contains k (lower rt line) \<and> length bs < 8 then bs @ [bullet k line]
      else scan_keywords rt ks line bs)"

definition collect_bullets :: "runtime \<Rightarrow> pystr list \<Rightarrow> pystr list \<Rightarrow> pystr list" where
  "collect_bullets rt jd_kw um_lines =
     fold (\<lambda>line bs. scan_keywords rt (take 8 jd_kw) line bs) (take 12 um_lines) []"

definition fallback_bullet :: "pystr list \<Rightarrow> pystr" where
  "fallback_bullet um_kw =
     py ''Accomplished key outcomes across '' @ join (py '', '') (take 5 um_kw) @ py ''.''"

definition nonempty_lines :: "pystr \<Rightarrow> pystr list" where
  "nonempty_lines text = map strip (filter (\<lambda>l. strip l \<noteq> []) (splitlines text))"

definition default_title :: pystr where
  "default_title = py ''Professional Profile''"

definition make_title :: "pystr list \<Rightarrow> pystr" where
  "make_title jd_lines =
     (case jd_lines of [] \<Rightarrow> default_title | l # _ \<Rightarrow> join (py '' '') (take 6 (split_ws l)))"

definition summary_prefix :: pystr where
  "summary_prefix =
     py ''Results-driven professional aligning closely with the role's priorities: ''"

definition summary_suffix :: pystr where
  "summary_suffix =
     py ''. '' @
     py ''Brings proven experience highlighted below and tailored precisely to the job description.''"

definition cover_prefix :: pystr where
  "cover_prefix =
     py ''Dear Hiring Manager,'' @ [10, 10] @
     py ''I'm excited to apply for this opportunity. After reviewing the job description, I curated the attached resume to emphasize the most relevant '' @
     py ''skills and outcomes, including ''"

definition cover_suffix :: pystr where
  "cover_suffix =
     py ''. '' @
     py ''I thrive in collaborative, fast-moving environments and would welcome the chance to contribute.'' @
     [10, 10] @ py ''Sincerely,'' @ [10] @ py ''Your Name''"

definition advice_text :: pystr where
  "advice_text =
     py ''Record a 60'' @ [8211] @
     py ''90s Loom: start with a 10s intro (name, role), then 30s on a signature achievement, 20s on how it maps to the JD, '' @
     py ''and finish with a clear ask to connect. Smile, good lighting, and share 1 on-screen artifact (dashboard, code snippet, design).''"

text \<open>The list \<open>overlap\<close> that \<open>simple_ai_generate\<close> computes from the two keyword sets.\<close>

definition overlap_of :: "runtime \<Rightarrow> pystr \<Rightarrow> pystr \<Rightarrow> pystr list" where
  "overlap_of rt job_description user_material =
     intersection rt (set_order rt (keywords_of rt job_description))
       (set_order rt (keywords_of rt user_material))"

definition simple_ai_generate :: "runtime \<Rightarrow> pystr \<Rightarrow> pystr \<Rightarrow> GeneratedContent" where
  "simple_ai_generate rt job_description user_material =
     (let jd_lines = nonempty_lines job_description;
          um_lines = nonempty_lines user_material;
          jd_kw = set_order rt (keywords_of rt job_description);
          um_kw = set_order rt (keywords_of rt user_material);
          overlap = intersection rt jd_kw um_kw;
          found = collect_bullets rt jd_kw um_lines
      in \<lparr> title = make_title jd_lines,
           summary = summary_prefix @ join (py '', '') (take 6 overlap) @ summary_suffix,
           bullets = (if found = [] then [fallback_bullet um_kw] else found),
           cover_letter = cover_prefix @ join (py '', '') (take 6 overlap) @ cover_suffix,
           header = py ''Impact-forward Resume'',
           footer = py ''Created with Flames Blue Resume Builder'',
           advice = advice_text \<rparr>)"

subsection \<open>The request handler\<close>

datatype error = HTTPException nat pystr

record GenerateRequest =
  user_id :: pystr
  job_description :: pystr
  user_material :: pystr

definition generate :: "runtime \<Rightarrow> GenerateRequest \<Rightarrow> error + GeneratedContent" where
  "generate rt payload =
     (if strip (job_description payload) = [] \<or> strip (user_material payload) = []
      then Inl (HTTPException 400 (py ''Both job description and user material are required''))
      else Inr (simple_ai_generate rt (job_description payload) (user_material payload)))"


subsection \<open>Keyword extraction as the specification words it\<close>

text \<open>
  The specification describes the keywords without the regular expression, the
  dictionary and the sort: the text is lower-cased and cut at every character that is
  not an ASCII letter; the pieces of four letters or more are the tokens; the keywords
  are the distinct tokens ranked by falling frequency, tokens of equal frequency in the
  order of their first occurrence, and the first ten of that ranking are returned.
\<close>

fun pieces :: "('a \<Rightarrow> bool) \<Rightarrow> 'a list \<Rightarrow> 'a list list" where
  "pieces sep [] = [[]]"
| "pieces sep (c # cs) =
     (if sep c then [] # pieces sep cs
      else (case pieces sep cs of [] \<Rightarrow> [[c]] | p # ps \<Rightarrow> (c # p) # ps))"

definition letter_runs :: "pystr \<Rightarrow> pystr list" where
  "letter_runs s = filter (\<lambda>w. w \<noteq> []) (pieces (\<lambda>c. \<not> ascii_letter c) s)"

definition tokens :: "runtime \<Rightarrow> pystr \<Rightarrow> pystr list" where
  "tokens rt text = filter (\<lambda>w. 4 \<le> length w) (letter_runs (lower rt text))"

text \<open>The distinct elements of a list in the order of their first occurrence.\<close>

definition first_occurrences :: "'a list \<Rightarrow> 'a list" where
  "first_occurrences xs = rev (remdups (rev xs))"

definition first_index :: "'a list \<Rightarrow> 'a \<Rightarrow> nat" where
  "first_index xs x = length (takeWhile (\<lambda>y. y \<noteq> x) xs)"

definition rank :: "pystr list \<Rightarrow> pystr \<Rightarrow> int \<times> nat" where
  "rank toks w = (- int (count_list toks w), first_index toks w)"

definition spec_keywords :: "runtime \<Rightarrow> pystr \<Rightarrow> pystr list" where
  "spec_keywords rt text =
     (let toks = tokens rt text in take 10 (sort_key (rank toks) (remdups toks)))"

section \<open>Identifiers and random values\<close>

type_synonym byte = "8 word"

definition hexdigit :: "nat \<Rightarrow> codepoint" where
  "hexdigit d = (if d < 10 then 48 + d else 87 + d)"

text \<open>\<open>'%0kx' % n\<close>: the \<open>k\<close> lowest hexadecimal digits of \<open>n\<close>, lower case.\<close>

fun hex_fixed :: "nat \<Rightarrow> nat \<Rightarrow> pystr" where
  "hex_fixed 0 n = []"
| "hex_fixed (Suc k) n = hex_fixed k (n div 16) @ [hexdigit (n mod 16)]"

definition is_hexdigit :: "codepoint \<Rightarrow> bool" where
  "is_hexdigit c \<longleftrightarrow> (48 \<le> c \<and> c \<le> 57) \<or> (97 \<le> c \<and> c \<le> 102) \<or> (65 \<le> c \<and> c \<le> 70)"

definition is_lower_hexdigit :: "codepoint \<Rightarrow> bool" where
  "is_lower_hexdigit c \<longleftrightarrow> (48 \<le> c \<and> c \<le> 57) \<or> (97 \<le> c \<and> c \<le> 102)"

definition hexval :: "codepoint \<Rightarrow> nat" where
  "hexval c = (if c \<le> 57 then c - 48 else if c \<le> 70 then c - 55 else c - 87)"

definition hex_value :: "pystr \<Rightarrow> nat" where
  "hex_value s = fold (\<lambda>c n. 16 * n + hexval c) s 0"

text \<open>
  The store's native identifier, \<open>bson.ObjectId\<close>, is a value of 12 bytes. \<open>str\<close> of it
  is its 24 hexadecimal digits, and \<open>ObjectId(s)\<close> for a string is the identifier that
  24 hexadecimal digits denote; for any other string it raises \<open>InvalidId\<close>.
\<close>

type_synonym ObjectId = "96 word"

definition oid_str :: "ObjectId \<Rightarrow> pystr" where
  "oid_str oid = hex_fixed 24 (unat oid)"

definition ObjectId_of_str :: "pystr \<Rightarrow> ObjectId option" where
  "ObjectId_of_str s =
     (if length s = 24 \<and> list_all is_hexdigit s then Some (of_nat (hex_value s)) else None)"

text \<open>
  \<open>uuid.uuid4()\<close> draws 16 random bytes, read as one number of 128 bits, and overwrites
  the variant and the version bits. \<open>.hex\<close> is \<open>'%032x' % int\<close>, and \<open>str\<close> groups those
  digits as 8-4-4-4-12 with hyphens.
\<close>

type_synonym uuid = "128 word"

definition uuid4 :: "128 word \<Rightarrow> uuid" where
  "uuid4 random_bytes =
     or (and (or (and random_bytes (not (push_bit 48 0xc000))) (push_bit 48 0x8000))
             (not (push_bit 64 0xf000)))
        (push_bit 76 4)"

definition uuid_hex :: "uuid \<Rightarrow> pystr" where
  "uuid_hex u = hex_fixed 32 (unat u)"

definition uuid_str :: "uuid \<Rightarrow> pystr" where
  "uuid_str u =
     (let h = uuid_hex u
      in take 8 h @ [45] @ take 4 (drop 8 h) @ [45] @ take 4 (drop 12 h) @ [45] @
         take 4 (drop 16 h) @ [45] @ drop 20 h)"

section \<open>The document store\<close>

text \<open>
  Modelled from the spec: the document store, whose handle \<open>db\<close> comes from the module
  \<open>database\<close>, is not part of \<open>main.py\<close>. It has the three collections \<open>user\<close>, \<open>session\<close>
  and \<open>profile\<close>, each a sequence of documents in insertion order; \<open>find_one\<close> returns the
  first document that matches, \<open>insert_one\<close> appends a document under a new identifier,
  and \<open>update_one\<close> changes fields of the first document that matches. An unconfigured
  store is \<open>None\<close>. A field that holds an identifier holds either the native type or a
  string.
\<close>

type_synonym datetime = nat

datatype ident = Oid ObjectId | Str pystr

fun ident_str :: "ident \<Rightarrow> pystr" where
  "ident_str (Oid oid) = oid_str oid"
| "ident_str (Str s) = s"

record user_doc =
  user_oid :: ObjectId
  user_email :: pystr
  user_name :: "pystr option"
  user_created_at :: datetime
  user_updated_at :: datetime

record session_doc =
  session_oid :: ObjectId
  session_user_id :: ObjectId
  session_token :: pystr
  session_created_at :: datetime

record profile_doc =
  profile_oid :: ident
  profile_user_id :: ident
  profile_content :: GeneratedContent
  profile_loom_url :: "pystr option"
  profile_photo_url :: "pystr option"
  profile_share_slug :: pystr
  profile_created_at :: datetime
  profile_updated_at :: datetime

record store =
  users :: "user_doc list"
  sessions :: "session_doc list"
  profiles :: "profile_doc list"

fun update_one :: "('d \<Rightarrow> bool) \<Rightarrow> ('d \<Rightarrow> 'd) \<Rightarrow> 'd list \<Rightarrow> 'd list" where
  "update_one match upd [] = []"
| "update_one match upd (d # ds) =
     (if match d then upd d # ds else d # update_one match upd ds)"

text \<open>
  What a handler takes from its surroundings during one call: the 16 random bytes that
  \<open>uuid4\<close> draws, the identifier the store gives to the \<open>k\<close>-th document inserted, and
  the \<open>k\<close>-th reading of the clock.
\<close>

record env =
  urandom :: "128 word"
  fresh_id :: "nat \<Rightarrow> ObjectId"
  now :: "nat \<Rightarrow> datetime"

definition not_configured :: error where
  "not_configured = HTTPException 500 (py ''Database not configured'')"

section \<open>Sign-in\<close>

record SignInRequest =
  req_email :: pystr
  req_name :: "pystr option"

record SignInResponse =
  resp_user_id :: pystr
  resp_token :: pystr

text \<open>\<open>s.split(sep)\<close> for a separator of one character.\<close>

function split_on :: "codepoint \<Rightarrow> pystr \<Rightarrow> pystr list" where
  "split_on sep s =
     (case dropWhile (\<lambda>c. c \<noteq> sep) s of
        [] \<Rightarrow> [s]
      | _ # r \<Rightarrow> takeWhile (\<lambda>c. c \<noteq> sep) s # split_on sep r)"
  by pat_completeness auto
termination
proof (relation "measure (\<lambda>(sep, s). length s)", goal_cases)
  case 1
  show ?case by simp
next
  case (2 sep s c r)
  have "length (dropWhile (\<lambda>c. c \<noteq> sep) s) \<le> length s"
    by (rule length_dropWhile_le)
  with 2 show ?case by simp
qed

text \<open>\<open>a or b\<close> where \<open>a\<close> is an optional string: \<open>None\<close> and the empty string are false.\<close>

definition or_else :: "pystr option \<Rightarrow> pystr option \<Rightarrow> pystr option" where
  "or_else a b = (case a of None \<Rightarrow> b | Some s \<Rightarrow> if s = [] then b else Some s)"

text \<open>
  An exception that no handler catches ends the request; here only \<open>InvalidId\<close> from
  \<open>ObjectId(user_id)\<close> in \<open>signin\<close> could be one.
\<close>

definition uncaught :: error where
  "uncaught = HTTPException 500 (py ''Internal Server Error'')"

definition signin ::
  "env \<Rightarrow> store option \<Rightarrow> SignInRequest \<Rightarrow> (error + SignInResponse) \<times> store option" where
  "signin e db payload =
     (case db of
        None \<Rightarrow> (Inl not_configured, None)
      | Some st \<Rightarrow>
          (let token = uuid_str (uuid4 (urandom e))
           in case find (\<lambda>u. user_email u = req_email payload) (users st) of
                None \<Rightarrow>
                  (let user_doc = \<lparr> user_oid = fresh_id e 0,
                                    user_email = req_email payload,
                                    user_name = or_else (req_name payload)
                                                  (Some (hd (split_on 64 (req_email payload)))),
                                    user_created_at = now e 0,
                                    user_updated_at = now e 1 \<rparr>;
                       st1 = st\<lparr>users := users st @ [user_doc]\<rparr>;
                       user_id = oid_str (fresh_id e 0)
                   in case ObjectId_of_str user_id of
                        None \<Rightarrow> (Inl uncaught, Some st1)
                      | Some uoid \<Rightarrow>
                          (Inr \<lparr> resp_user_id = user_id, resp_token = token \<rparr>,
                           Some (st1\<lparr>sessions := sessions st1 @
                                   [\<lparr> session_oid = fresh_id e 1, session_user_id = uoid,
                                      session_token = token,
                                      session_created_at = now e 2 \<rparr>]\<rparr>)))
              | Some user \<Rightarrow>
                  (let user_id = oid_str (user_oid user)
                   in case ObjectId_of_str user_id of
                        None \<Rightarrow> (Inl uncaught, Some st)
                      | Some uoid \<Rightarrow>
                          (let st1 = st\<lparr>users :=
                                 update_one (\<lambda>u. user_oid u = uoid)
                                   (\<lambda>u. u\<lparr>user_name := or_else (req_name payload) (user_name user),
                                          user_updated_at := now e 0\<rparr>)
                                   (users st)\<rparr>
                           in (Inr \<lparr> resp_user_id = user_id, resp_token = token \<rparr>,
                               Some (st1\<lparr>sessions := sessions st1 @
                                       [\<lparr> session_oid = fresh_id e 0, session_user_id = uoid,
                                          session_token = token,
                                          session_created_at = now e 1 \<rparr>]\<rparr>))))))"


section \<open>Text extraction\<close>

text \<open>
  \<open>bytes.decode("utf-8", errors="ignore")\<close>. A well-formed sequence gives its code
  point. An ill-formed one is dropped and decoding resumes behind it: a byte that cannot
  start a sequence is dropped alone; a start byte is dropped with the continuation
  bytes that were accepted before the first byte that does not fit; a sequence cut off
  by the end of the data is dropped whole.
\<close>

definition is_continuation :: "byte \<Rightarrow> bool" where
  "is_continuation b \<longleftrightarrow> 0x80 \<le> b \<and> b < 0xC0"

function utf8_decode_ignore :: "byte list \<Rightarrow> pystr" where
  "utf8_decode_ignore [] = []"
| "utf8_decode_ignore (b # bs) =
     (if b < 0x80 then unat b # utf8_decode_ignore bs
      else if b < 0xC2 then utf8_decode_ignore bs
      else if b < 0xE0 then
        (case bs of
           [] \<Rightarrow> []
         | b2 # r \<Rightarrow>
             if is_continuation b2
             then ((unat b - 0xC0) * 64 + (unat b2 - 0x80)) # utf8_decode_ignore r
             else utf8_decode_ignore bs)
      else if b < 0xF0 then
        (case bs of
           [] \<Rightarrow> []
         | b2 # r \<Rightarrow>
             if \<not> is_continuation b2 \<or> (b = 0xE0 \<and> b2 < 0xA0) \<or> (b = 0xED \<and> 0xA0 \<le> b2)
             then utf8_decode_ignore bs
             else (case r of
                     [] \<Rightarrow> []
                   | b3 # r' \<Rightarrow>
                       if is_continuation b3
                       then ((unat b - 0xE0) * 4096 + (unat b2 - 0x80) * 64 + (unat b3 - 0x80)) #
                            utf8_decode_ignore r'
                       else utf8_decode_ignore r))
      else if b < 0xF5 then
        (case bs of
           [] \<Rightarrow> []
         | b2 # r \<Rightarrow>
             if \<not> is_continuation b2 \<or> (b = 0xF0 \<and> b2 < 0x90) \<or> (b = 0xF4 \<and> 0x90 \<le> b2)
             then utf8_decode_ignore bs
             else (case r of
                     [] \<Rightarrow> []
                   | b3 # r' \<Rightarrow>
                       if \<not> is_continuation b3 then utf8_decode_ignore r
                       else (case r' of
                               [] \<Rightarrow> []
                             | b4 # r'' \<Rightarrow>
                                 if is_continuation b4
                                 then ((unat b - 0xF0) * 262144 + (unat b2 - 0x80) * 4096 +
                                       (unat b3 - 0x80) * 64 + (unat b4 - 0x80)) #
                                      utf8_decode_ignore r''
                                 else utf8_decode_ignore r')))
      else utf8_decode_ignore bs)"
  by pat_completeness auto
termination
  by (relation "measure length") auto

text \<open>
  The parsers \<open>PyPDF2.PdfReader\<close> and \<open>docx\<close> are libraries outside \<open>main.py\<close>, each
  absent (\<open>None\<close>) when its import failed. Given the bytes of the upload a parser raises
  or returns: the PDF reader its pages, each of which raises or returns its text (or
  nothing) when asked for it; the DOCX reader the texts of the paragraphs.
\<close>

datatype 'a outcome = Raised pystr | Returned 'a

record parsers =
  PdfReader :: "(byte list \<Rightarrow> pystr option outcome list outcome) option"
  docx :: "(byte list \<Rightarrow> pystr list outcome) option"

record UploadFile =
  filename :: "pystr option"
  file_bytes :: "byte list"

definition page_texts :: "pystr option outcome list \<Rightarrow> pystr list" where
  "page_texts pages =
     concat (map (\<lambda>page. case page of
                            Raised _ \<Rightarrow> []
                          | Returned None \<Rightarrow> [[]]
                          | Returned (Some t) \<Rightarrow> [t]) pages)"

definition failed_to_read :: "pystr \<Rightarrow> error" where
  "failed_to_read msg = HTTPException 400 (py ''Failed to read file: '' @ take 120 msg)"

definition extension :: "runtime \<Rightarrow> UploadFile \<Rightarrow> pystr" where
  "extension rt file =
     lower rt (last (split_on 46 (case filename file of None \<Rightarrow> [] | Some f \<Rightarrow> f)))"

definition extract_text ::
  "runtime \<Rightarrow> parsers \<Rightarrow> store option \<Rightarrow> UploadFile \<Rightarrow> error + pystr" where
  "extract_text rt libs db file =
     (if db = None then Inl not_configured
      else
        (let ext = extension rt file
         in if ext = py ''pdf'' then
              (case PdfReader libs of
                 None \<Rightarrow> Inl (HTTPException 400 (py ''PDF support not available''))
               | Some reader \<Rightarrow>
                   (case reader (file_bytes file) of
                      Raised msg \<Rightarrow> Inl (failed_to_read msg)
                    | Returned pages \<Rightarrow> Inr (strip (join [10] (page_texts pages)))))
            else if ext = py ''docx'' \<or> ext = py ''doc'' then
              (case docx libs of
                 None \<Rightarrow> Inl (HTTPException 400 (py ''DOCX support not available''))
               | Some document \<Rightarrow>
                   (case document (file_bytes file) of
                      Raised msg \<Rightarrow> Inl (failed_to_read msg)
                    | Returned paragraphs \<Rightarrow> Inr (strip (join [10] paragraphs))))
            else Inr (utf8_decode_ignore (file_bytes file))))"

text \<open>
  For evaluation: the bytes of an ASCII literal, an empty store, and a DOCX reader that
  finds no paragraph in any file.
\<close>

definition ascii_bytes :: "string \<Rightarrow> byte list" where
  "ascii_bytes s = map (\<lambda>c. of_nat (of_char c)) s"

definition empty_store :: store where
  "empty_store = \<lparr> users = [], sessions = [], profiles = [] \<rparr>"

definition no_paragraphs :: "byte list \<Rightarrow> pystr list outcome" where
  "no_paragraphs bs = Returned []"

section \<open>Profiles\<close>

record SaveProfileRequest =
  save_user_id :: pystr
  save_content :: GeneratedContent
  save_loom_url :: "pystr option"
  save_photo_url :: "pystr option"

record SaveProfileResponse =
  profile_id :: pystr
  share_slug :: pystr

definition save_profile ::
  "env \<Rightarrow> store option \<Rightarrow> SaveProfileRequest \<Rightarrow> (error + SaveProfileResponse) \<times> store option" where
  "save_profile e db payload =
     (case db of
        None \<Rightarrow> (Inl not_configured, None)
      | Some st \<Rightarrow>
          (case ObjectId_of_str (save_user_id payload) of
             None \<Rightarrow> (Inl (HTTPException 400 (py ''Invalid user_id'')), Some st)
           | Some uoid \<Rightarrow>
               (let slug = take 10 (uuid_hex (uuid4 (urandom e)));
                    doc = \<lparr> profile_oid = Oid (fresh_id e 0),
                            profile_user_id = Oid uoid,
                            profile_content = save_content payload,
                            profile_loom_url = save_loom_url payload,
                            profile_photo_url = save_photo_url payload,
                            profile_share_slug = slug,
                            profile_created_at = now e 0,
                            profile_updated_at = now e 1 \<rparr>
                in (Inr \<lparr> profile_id = oid_str (fresh_id e 0), share_slug = slug \<rparr>,
                    Some (st\<lparr>profiles := profiles st @ [doc]\<rparr>)))))"

definition get_profile :: "store option \<Rightarrow> pystr \<Rightarrow> (error + profile_doc) \<times> store option" where
  "get_profile db slug =
     (case db of
        None \<Rightarrow> (Inl not_configured, None)
      | Some st \<Rightarrow>
          (case find (\<lambda>d. profile_share_slug d = slug) (profiles st) of
             None \<Rightarrow> (Inl (HTTPException 404 (py ''Profile not found'')), Some st)
           | Some doc \<Rightarrow>
               (Inr (doc\<lparr>profile_oid := Str (ident_str (profile_oid doc)),
                         profile_user_id :=
                           (case profile_user_id doc of
                              Oid oid \<Rightarrow> Str (oid_str oid)
                            | Str s \<Rightarrow> Str s)\<rparr>),
                Some st)))"

section \<open>Properties\<close>

declare split_ws.simps [simp del] split_on.simps [simp del]

subsection \<open>Input validation of the generate operation\<close>

lemma strip_empty_iff: "strip s = [] \<longleftrightarrow> blank s"
proof
  assume "strip s = []"
  then have all: "\<forall>x \<in> set (dropWhile isspace s). isspace x"
    by (simp add: strip_def rstrip_def lstrip_def dropWhile_eq_Nil_conv)
  have "dropWhile isspace s = []"
  proof (rule ccontr)
    assume ne: "dropWhile isspace s \<noteq> []"
    then have "\<not> isspace (hd (dropWhile isspace s))" by (rule hd_dropWhile)
    moreover have "hd (dropWhile isspace s) \<in> set (dropWhile isspace s)" using ne by simp
    ultimately show False using all by blast
  qed
  then show "blank s" by (simp add: blank_def dropWhile_eq_Nil_conv)
next
  assume "blank s"
  then have "dropWhile isspace s = []" by (simp add: blank_def dropWhile_eq_Nil_conv)
  then show "strip s = []" by (simp only: strip_def rstrip_def lstrip_def dropWhile.simps rev.simps)
qed

text \<open>
  Claim C1. The generate operation fails with the invalid-argument error (HTTP 400)
  when the job description or the user material is empty or consists of white space
  only, and returns the generated content when both are non-empty after trimming.
\<close>

theorem generate_requires_both_inputs:
  "(blank (job_description p) \<or> blank (user_material p) \<longrightarrow>
      generate rt p =
        Inl (HTTPException 400 (py ''Both job description and user material are required''))) \<and>
   (\<not> blank (job_description p) \<and> \<not> blank (user_material p) \<longrightarrow>
      generate rt p = Inr (simple_ai_generate rt (job_description p) (user_material p)))"
  by (simp add: generate_def strip_empty_iff)

theorem generate_requires_both_inputs_witness:
  "blank (job_description \<lparr>user_id = py ''u'', job_description = py '''', user_material = py ''x''\<rparr>) \<and>
   generate ascii_runtime \<lparr>user_id = py ''u'', job_description = py '''', user_material = py ''x''\<rparr> =
     Inl (HTTPException 400 (py ''Both job description and user material are required'')) \<and>
   blank (user_material \<lparr>user_id = py ''u'', job_description = py ''x'', user_material = py '' ''\<rparr>) \<and>
   generate ascii_runtime \<lparr>user_id = py ''u'', job_description = py ''x'', user_material = py '' ''\<rparr> =
     Inl (HTTPException 400 (py ''Both job description and user material are required'')) \<and>
   \<not> blank (job_description \<lparr>user_id = py ''u'', job_description = py ''x'', user_material = py ''y''\<rparr>) \<and>
   \<not> blank (user_material \<lparr>user_id = py ''u'', job_description = py ''x'', user_material = py ''y''\<rparr>) \<and>
   generate ascii_runtime \<lparr>user_id = py ''u'', job_description = py ''x'', user_material = py ''y''\<rparr> =
     Inr (simple_ai_generate ascii_runtime (py ''x'') (py ''y''))"
  using generate_requires_both_inputs
          [of "\<lparr>user_id = py ''u'', job_description = py '''', user_material = py ''x''\<rparr>" ascii_runtime]
        generate_requires_both_inputs
          [of "\<lparr>user_id = py ''u'', job_description = py ''x'', user_material = py '' ''\<rparr>" ascii_runtime]
        generate_requires_both_inputs
          [of "\<lparr>user_id = py ''u'', job_description = py ''x'', user_material = py ''y''\<rparr>" ascii_runtime]
  by (simp add: blank_def py_def isspace_def)

subsection \<open>White space, lines and tokens\<close>

lemma nonempty_lines_eq:
  "nonempty_lines text = map strip (filter (\<lambda>l. \<not> blank l) (splitlines text))"
  by (simp add: nonempty_lines_def strip_empty_iff)

lemma split_ws_Nil [simp]: "split_ws [] = []"
  by (simp add: split_ws.simps)

lemma split_ws_space_Cons: "isspace c \<Longrightarrow> split_ws (c # s) = split_ws s"
  by (subst split_ws.simps, subst (2) split_ws.simps) simp

lemma split_ws_lstrip: "split_ws (lstrip s) = split_ws s"
  unfolding lstrip_def
  by (induction s) (simp_all add: split_ws_space_Cons)

lemma split_ws_snoc_space: "isspace c \<Longrightarrow> split_ws (s @ [c]) = split_ws s"
proof (induction s rule: split_ws.induct)
  case (1 s)
  show ?case
  proof (cases "dropWhile isspace s")
    case Nil
    then have "dropWhile isspace (s @ [c]) = []"
      using 1(2) by (simp add: dropWhile_eq_Nil_conv)
    with Nil show ?thesis
      by (subst split_ws.simps, subst (2) split_ws.simps) (simp only: list.case)
  next
    case (Cons x xs)
    then obtain y where "y \<in> set s" "\<not> isspace y"
      by (metis dropWhile_eq_Nil_conv list.distinct(1))
    then have "dropWhile isspace (s @ [c]) = dropWhile isspace s @ [c]"
      by (rule dropWhile_append1)
    then have d: "dropWhile isspace (s @ [c]) = x # (xs @ [c])"
      using Cons by simp
    have nx: "\<not> isspace x"
      using Cons hd_dropWhile[of isspace s] by simp
    have t: "takeWhile (\<lambda>y. \<not> isspace y) (x # (xs @ [c])) = takeWhile (\<lambda>y. \<not> isspace y) (x # xs)"
      using 1(2) nx by (auto simp: takeWhile_append takeWhile_eq_all_conv[THEN iffD2, symmetric])
    have r: "split_ws (dropWhile (\<lambda>y. \<not> isspace y) (xs @ [c])) =
             split_ws (dropWhile (\<lambda>y. \<not> isspace y) xs)"
    proof (cases "\<forall>y \<in> set xs. \<not> isspace y")
      case True
      then have a: "dropWhile (\<lambda>y. \<not> isspace y) (xs @ [c]) = [c]"
        using 1(2) by (simp add: dropWhile_append)
      have b: "dropWhile (\<lambda>y. \<not> isspace y) xs = []"
        using True by (simp add: dropWhile_eq_Nil_conv)
      show ?thesis
        unfolding a b using 1(2) by (simp add: split_ws_space_Cons)
    next
      case False
      then obtain z where "z \<in> set xs" "\<not> \<not> isspace z" by blast
      then have "dropWhile (\<lambda>y. \<not> isspace y) (xs @ [c]) = dropWhile (\<lambda>y. \<not> isspace y) xs @ [c]"
        by (rule dropWhile_append1)
      then show ?thesis
        using 1(1)[OF Cons 1(2)] by simp
    qed
    show ?thesis
      by (subst split_ws.simps, subst (2) split_ws.simps) (simp only: d Cons list.case t r)
  qed
qed

lemma split_ws_append_blank: "blank t \<Longrightarrow> split_ws (s @ t) = split_ws s"
proof (induction t rule: rev_induct)
  case Nil
  show ?case by simp
next
  case (snoc c t)
  then have "isspace c" and "blank t" by (simp_all add: blank_def)
  then show ?case
    using snoc.IH split_ws_snoc_space[of c "s @ t"] by (simp)
qed

lemma rstrip_decomp: "\<exists>t. blank t \<and> s = rstrip s @ t"
proof -
  have "rev s = takeWhile isspace (rev s) @ dropWhile isspace (rev s)" by simp
  then have "s = rev (dropWhile isspace (rev s)) @ rev (takeWhile isspace (rev s))"
    by (metis rev_append rev_rev_ident)
  moreover have "blank (rev (takeWhile isspace (rev s)))"
    by (auto simp: blank_def dest: set_takeWhileD)
  ultimately show ?thesis unfolding rstrip_def by blast
qed

lemma split_ws_rstrip: "split_ws (rstrip s) = split_ws s"
  using rstrip_decomp[of s] split_ws_append_blank by metis

lemma split_ws_strip: "split_ws (strip s) = split_ws s"
  by (simp add: strip_def split_ws_rstrip split_ws_lstrip)

subsection \<open>Title derivation\<close>

lemma py_space [simp]: "py '' '' = [32]"
  by (simp add: py_def)

lemma isspace_32 [simp]: "isspace 32"
  by (simp add: isspace_def)

lemma islinebreak_isspace: "islinebreak c \<Longrightarrow> isspace c"
  by (auto simp: islinebreak_def isspace_def)

lemma split_ws_token_Cons:
  assumes "token p" and "isspace c"
  shows "split_ws (p @ c # rest) = p # split_ws rest"
proof -
  from assms(1) obtain x xs where p: "p = x # xs" and nx: "\<not> isspace x"
    and nxs: "\<forall>y \<in> set xs. \<not> isspace y"
    by (cases p) (auto simp: token_def)
  have d: "dropWhile isspace (p @ c # rest) = x # (xs @ c # rest)"
    using p nx by simp
  have t: "takeWhile (\<lambda>y. \<not> isspace y) (x # (xs @ c # rest)) = p"
    using p nx nxs assms(2) by (simp add: takeWhile_append)
  have r: "dropWhile (\<lambda>y. \<not> isspace y) (xs @ c # rest) = c # rest"
    using nxs assms(2) by (simp add: dropWhile_append)
  show ?thesis
    by (subst split_ws.simps) (simp only: d list.case t r split_ws_space_Cons[OF assms(2)])
qed

lemma split_ws_token: "token p \<Longrightarrow> split_ws p = [p]"
  using split_ws_token_Cons[of p 32 "[]"] split_ws_snoc_space[of 32 p] by simp

lemma split_ws_join: "\<forall>w \<in> set ws. token w \<Longrightarrow> split_ws (join [32] ws) = ws"
  by (induction "[32::nat]" ws rule: join.induct)
     (simp_all add: split_ws_token split_ws_token_Cons)

lemma splitlines_one_line:
  assumes "s \<noteq> []" and "\<forall>c \<in> set s. \<not> islinebreak c"
  shows "splitlines s = [s]"
proof -
  obtain c cs where s: "s = c # cs" using assms(1) by (cases s) auto
  have "takeWhile (\<lambda>x. \<not> islinebreak x) (c # cs) = c # cs"
    using assms(2) unfolding s by (simp add: takeWhile_eq_all_conv del: takeWhile.simps)
  moreover have "dropWhile (\<lambda>x. \<not> islinebreak x) (c # cs) = []"
    using assms(2) unfolding s by (simp add: dropWhile_eq_Nil_conv del: dropWhile.simps)
  ultimately show ?thesis
    unfolding s by (simp only: splitlines.simps Let_def list.case)
qed

lemma join_tokens_chars:
  "\<forall>w \<in> set ws. token w \<Longrightarrow> c \<in> set (join [32] ws) \<Longrightarrow> c = 32 \<or> \<not> isspace c"
  by (induction "[32::nat]" ws rule: join.induct) (auto simp: token_def)

lemma join_tokens_not_blank:
  "ws \<noteq> [] \<Longrightarrow> \<forall>w \<in> set ws. token w \<Longrightarrow> \<not> blank (join [32] ws)"
proof (induction "[32::nat]" ws rule: join.induct)
  case 1
  then show ?case by simp
next
  case (2 p)
  then show ?case by (cases p) (auto simp: token_def blank_def)
next
  case (3 p q ps)
  then show ?case by (cases p) (auto simp: token_def blank_def)
qed

lemma first_nonblank:
  assumes "\<forall>x \<in> set pre. blank x" and "\<not> blank l"
  shows "filter (\<lambda>l. \<not> blank l) (pre @ l # post) = l # filter (\<lambda>l. \<not> blank l) post"
  using assms by (induction pre) auto

lemma title_eq: "title (simple_ai_generate rt jd um) = make_title (nonempty_lines jd)"
  by (simp add: simple_ai_generate_def Let_def)

text \<open>
  Claim C3, as amended. If the job description has no non-blank line the title is the
  fixed default string. Otherwise the title is the first 6 white-space-separated tokens
  of the first non-blank line, joined by single spaces. In particular a job
  description that consists of tokens separated by single spaces yields the first 6 of
  them, so that a line of 6 or fewer such tokens is returned unchanged and one of 8
  tokens is cut to its first 6.
\<close>

theorem title_from_first_line:
  "((\<forall>l \<in> set (splitlines jd). blank l) \<longrightarrow>
      title (simple_ai_generate rt jd um) = default_title) \<and>
   (splitlines jd = pre @ l # post \<and> (\<forall>x \<in> set pre. blank x) \<and> \<not> blank l \<longrightarrow>
      title (simple_ai_generate rt jd um) = join (py '' '') (take 6 (split_ws l))) \<and>
   (ws \<noteq> [] \<and> (\<forall>w \<in> set ws. token w) \<longrightarrow>
      title (simple_ai_generate rt (join (py '' '') ws) um) = join (py '' '') (take 6 ws) \<and>
      (length ws \<le> 6 \<longrightarrow>
         title (simple_ai_generate rt (join (py '' '') ws) um) = join (py '' '') ws))"
proof (intro conjI impI)
  assume "\<forall>l \<in> set (splitlines jd). blank l"
  then have "filter (\<lambda>l. \<not> blank l) (splitlines jd) = []"
    by (simp add: filter_empty_conv)
  then show "title (simple_ai_generate rt jd um) = default_title"
    by (simp add: title_eq nonempty_lines_eq make_title_def)
next
  assume a: "splitlines jd = pre @ l # post \<and> (\<forall>x \<in> set pre. blank x) \<and> \<not> blank l"
  then have "filter (\<lambda>l. \<not> blank l) (splitlines jd) = l # filter (\<lambda>l. \<not> blank l) post"
    using first_nonblank[of pre l post] by simp
  then show "title (simple_ai_generate rt jd um) = join (py '' '') (take 6 (split_ws l))"
    by (simp add: title_eq nonempty_lines_eq make_title_def split_ws_strip)
next
  assume a: "ws \<noteq> [] \<and> (\<forall>w \<in> set ws. token w)"
  let ?s = "join [32] ws"
  have nb: "\<not> blank ?s" using a by (simp add: join_tokens_not_blank)
  then have ne: "?s \<noteq> []" by (auto simp: blank_def)
  have "\<not> islinebreak c" if "c \<in> set ?s" for c
  proof -
    from a have "\<forall>w \<in> set ws. token w" by blast
    from join_tokens_chars[OF this that] have "c = 32 \<or> \<not> isspace c" .
    then show ?thesis
    proof
      assume "c = 32"
      then show ?thesis by (simp add: islinebreak_def)
    next
      assume "\<not> isspace c"
      then show ?thesis using islinebreak_isspace by blast
    qed
  qed
  then have "\<forall>c \<in> set ?s. \<not> islinebreak c" by blast
  with ne have "splitlines ?s = [?s]" by (rule splitlines_one_line)
  then have "nonempty_lines ?s = [strip ?s]"
    using nb by (simp add: nonempty_lines_eq)
  then show t: "title (simple_ai_generate rt (join (py '' '') ws) um) = join (py '' '') (take 6 ws)"
    using a by (simp add: title_eq make_title_def split_ws_strip split_ws_join)
  show "title (simple_ai_generate rt (join (py '' '') ws) um) = join (py '' '') ws"
    if "length ws \<le> 6"
    using t that by simp
qed


theorem title_from_first_line_witness:
  "list_all blank (splitlines (py '' '')) \<and>
   title (simple_ai_generate ascii_runtime (py '' '') (py ''x'')) = default_title \<and>
   splitlines (py ''\<newline>  Data   Engineer \<newline>Acme'') = [py ''''] @ py ''  Data   Engineer '' # [py ''Acme''] \<and>
   list_all blank [py ''''] \<and> \<not> blank (py ''  Data   Engineer '') \<and>
   title (simple_ai_generate ascii_runtime (py ''\<newline>  Data   Engineer \<newline>Acme'') (py ''x'')) =
     py ''Data Engineer'' \<and>
   list_all token [py ''Senior'', py ''Backend'', py ''Engineer'', py ''at'', py ''Acme''] \<and>
   title (simple_ai_generate ascii_runtime (py ''Senior Backend Engineer at Acme'') (py ''x'')) =
     py ''Senior Backend Engineer at Acme'' \<and>
   list_all token [py ''a'', py ''b'', py ''c'', py ''d'', py ''e'', py ''f'', py ''g'', py ''h''] \<and>
   title (simple_ai_generate ascii_runtime (py ''a b c d e f g h'') (py ''x'')) = py ''a b c d e f''"
  using title_from_first_line
          [where jd = "py '' ''" and rt = ascii_runtime and um = "py ''x''"
             and pre = "[]" and l = "py '' ''" and post = "[]" and ws = "[py ''a'']"]
        title_from_first_line
          [where jd = "py ''\<newline>  Data   Engineer \<newline>Acme''" and rt = ascii_runtime and um = "py ''x''"
             and pre = "[py '''']" and l = "py ''  Data   Engineer ''" and post = "[py ''Acme'']"
             and ws = "[py ''Senior'', py ''Backend'', py ''Engineer'', py ''at'', py ''Acme'']"]
        title_from_first_line
          [where jd = "py '' ''" and rt = ascii_runtime and um = "py ''x''"
             and pre = "[]" and l = "py '' ''" and post = "[]"
             and ws = "[py ''a'', py ''b'', py ''c'', py ''d'', py ''e'', py ''f'', py ''g'', py ''h'']"]
  by (simp add: py_def blank_def token_def isspace_def islinebreak_def split_ws.simps)

text \<open>
  The claim as it was stated fails for a line whose tokens are not separated by single
  spaces: two tokens with two spaces between them come back with one.
\<close>

theorem title_collapses_spacing_counterexample:
  "splitlines (py ''Data  Engineer'') = [py ''Data  Engineer''] \<and>
   length (split_ws (py ''Data  Engineer'')) \<le> 6 \<and>
   title (simple_ai_generate ascii_runtime (py ''Data  Engineer'') (py ''x'')) = py ''Data Engineer'' \<and>
   py ''Data Engineer'' \<noteq> py ''Data  Engineer''"
  by (simp add: title_eq nonempty_lines_def make_title_def strip_def lstrip_def rstrip_def
        py_def isspace_def islinebreak_def split_ws.simps)

subsection \<open>Bullets\<close>








lemma set_order_ok_ascii_runtime: "set_order_ok ascii_runtime"
  by (simp add: set_order_ok_def ascii_runtime_def)




subsection \<open>Summary and cover letter\<close>

lemma cover_letter_eq:
  "cover_letter (simple_ai_generate rt jd um) =
     cover_prefix @ join (py '', '') (take 6 (overlap_of rt jd um)) @ cover_suffix"
  by (simp add: simple_ai_generate_def overlap_of_def Let_def)

lemma summary_eq:
  "summary (simple_ai_generate rt jd um) =
     summary_prefix @ join (py '', '') (take 6 (overlap_of rt jd um)) @ summary_suffix"
  by (simp add: simple_ai_generate_def overlap_of_def Let_def)

lemma intersection_set:
  assumes "set_order_ok rt"
  shows "distinct (intersection rt a b) \<and> set (intersection rt a b) = set a \<inter> set b"
  using assms by (auto simp: intersection_def set_order_ok_def)

lemma overlap_of_set:
  assumes "set_order_ok rt"
  shows "distinct (overlap_of rt jd um) \<and>
         set (overlap_of rt jd um) = set (keywords_of rt jd) \<inter> set (keywords_of rt um)"
proof -
  from assms have ok: "\<And>xs. set (set_order rt xs) = set xs"
    by (simp add: set_order_ok_def)
  show ?thesis
    unfolding overlap_of_def using intersection_set[OF assms] by (simp add: ok)
qed

text \<open>
  Claim C4, as amended. The cover letter is a fixed template around a slot that holds
  the first 6 entries of the overlap list, joined by commas: the same slice that the
  summary embeds. So at most 6 overlap keywords appear in either, each of them a
  keyword of both inputs.
\<close>

theorem cover_letter_slices_overlap_like_summary:
  "cover_letter (simple_ai_generate rt jd um) =
     cover_prefix @ join (py '', '') (take 6 (overlap_of rt jd um)) @ cover_suffix \<and>
   summary (simple_ai_generate rt jd um) =
     summary_prefix @ join (py '', '') (take 6 (overlap_of rt jd um)) @ summary_suffix \<and>
   length (take 6 (overlap_of rt jd um)) \<le> 6 \<and>
   (set_order_ok rt \<longrightarrow>
      distinct (take 6 (overlap_of rt jd um)) \<and>
      set (take 6 (overlap_of rt jd um)) \<subseteq> set (keywords_of rt jd) \<inter> set (keywords_of rt um))"
proof (intro conjI impI)
  assume ok: "set_order_ok rt"
  show "distinct (take 6 (overlap_of rt jd um))"
    using overlap_of_set[OF ok, of jd um] by simp
  have "set (take 6 (overlap_of rt jd um)) \<subseteq> set (overlap_of rt jd um)"
    by (rule set_take_subset)
  then show "set (take 6 (overlap_of rt jd um)) \<subseteq> set (keywords_of rt jd) \<inter> set (keywords_of rt um)"
    using overlap_of_set[OF ok, of jd um] by simp
qed (simp_all add: cover_letter_eq summary_eq)

lemma seven_keywords:
  "keywords_of ascii_runtime (py ''alpha bravo charlie delta echo foxtrot golf'') =
     [py ''alpha'', py ''bravo'', py ''charlie'', py ''delta'', py ''echo'', py ''foxtrot'', py ''golf'']"
proof -
  have f: "findall (ascii_lower (py ''alpha bravo charlie delta echo foxtrot golf'')) =
     [py ''alpha'', py ''bravo'', py ''charlie'', py ''delta'', py ''echo'', py ''foxtrot'', py ''golf'']"
    by (simp add: ascii_lower_def py_def ascii_letter_def)
  have c: "count_words
     [py ''alpha'', py ''bravo'', py ''charlie'', py ''delta'', py ''echo'', py ''foxtrot'', py ''golf''] =
     [(py ''alpha'', 1), (py ''bravo'', 1), (py ''charlie'', 1), (py ''delta'', 1), (py ''echo'', 1),
      (py ''foxtrot'', 1), (py ''golf'', 1)]"
    by (simp add: count_words_def dict_get_def py_def)
  show ?thesis
    by (simp add: keywords_of_def ascii_runtime_def f c sorted_reverse_def)
qed

lemma seven_overlap:
  "overlap_of ascii_runtime (py ''alpha bravo charlie delta echo foxtrot golf'')
     (py ''alpha bravo charlie delta echo foxtrot golf'') =
     [py ''alpha'', py ''bravo'', py ''charlie'', py ''delta'', py ''echo'', py ''foxtrot'', py ''golf'']"
  unfolding overlap_of_def seven_keywords
  by (simp add: intersection_def ascii_runtime_def py_def)

theorem cover_letter_slices_overlap_like_summary_witness:
  "set_order_ok ascii_runtime \<and>
   distinct (take 6 (overlap_of ascii_runtime (py ''alpha bravo charlie delta echo foxtrot golf'')
                      (py ''alpha bravo charlie delta echo foxtrot golf''))) \<and>
   set (take 6 (overlap_of ascii_runtime (py ''alpha bravo charlie delta echo foxtrot golf'')
                      (py ''alpha bravo charlie delta echo foxtrot golf''))) \<subseteq>
     set (keywords_of ascii_runtime (py ''alpha bravo charlie delta echo foxtrot golf'')) \<inter>
     set (keywords_of ascii_runtime (py ''alpha bravo charlie delta echo foxtrot golf''))"
  using cover_letter_slices_overlap_like_summary
          [of ascii_runtime "py ''alpha bravo charlie delta echo foxtrot golf''"
              "py ''alpha bravo charlie delta echo foxtrot golf''"]
        set_order_ok_ascii_runtime
  by blast

text \<open>
  The claim as it was stated fails where 7 keywords overlap: the cover letter names 6
  of them, not all 7.
\<close>

theorem cover_letter_capped_counterexample:
  "length (overlap_of ascii_runtime (py ''alpha bravo charlie delta echo foxtrot golf'')
             (py ''alpha bravo charlie delta echo foxtrot golf'')) = 7 \<and>
   cover_letter (simple_ai_generate ascii_runtime (py ''alpha bravo charlie delta echo foxtrot golf'')
                   (py ''alpha bravo charlie delta echo foxtrot golf'')) =
     cover_prefix @ py ''alpha, bravo, charlie, delta, echo, foxtrot'' @ cover_suffix \<and>
   cover_letter (simple_ai_generate ascii_runtime (py ''alpha bravo charlie delta echo foxtrot golf'')
                   (py ''alpha bravo charlie delta echo foxtrot golf'')) \<noteq>
     cover_prefix @
     join (py '', '') (overlap_of ascii_runtime (py ''alpha bravo charlie delta echo foxtrot golf'')
                        (py ''alpha bravo charlie delta echo foxtrot golf'')) @
     cover_suffix"
  unfolding cover_letter_eq seven_overlap
  by (simp add: py_def)

subsection \<open>Keyword extraction\<close>

lemma pieces_not_Nil [simp]: "pieces sep s \<noteq> []"
  by (induction s) (auto split: list.splits)

lemma pieces_run:
  assumes "\<forall>c \<in> set m. \<not> sep c"
  shows "pieces sep (m @ rest) =
           (case pieces sep rest of [] \<Rightarrow> [m] | p # ps \<Rightarrow> (m @ p) # ps)"
  using assms by (induction m) (auto split: list.splits)

lemma pieces_takeWhile:
  "pieces sep s =
     (case dropWhile (\<lambda>c. \<not> sep c) s of
        [] \<Rightarrow> [s]
      | _ # r \<Rightarrow> takeWhile (\<lambda>c. \<not> sep c) s # pieces sep r)"
proof -
  let ?m = "takeWhile (\<lambda>c. \<not> sep c) s" and ?d = "dropWhile (\<lambda>c. \<not> sep c) s"
  have m: "\<forall>c \<in> set ?m. \<not> sep c" by (auto dest: set_takeWhileD)
  have "pieces sep s = pieces sep (?m @ ?d)" by simp
  also have "\<dots> = (case pieces sep ?d of [] \<Rightarrow> [?m] | p # ps \<Rightarrow> (?m @ p) # ps)"
    using m by (rule pieces_run)
  finally have e: "pieces sep s = (case pieces sep ?d of [] \<Rightarrow> [?m] | p # ps \<Rightarrow> (?m @ p) # ps)" .
  show ?thesis
  proof (cases ?d)
    case Nil
    then have "?m = s" by (metis append_Nil2 takeWhile_dropWhile_id)
    then show ?thesis unfolding e Nil by simp
  next
    case (Cons x r)
    then have "sep x" using hd_dropWhile[of "\<lambda>c. \<not> sep c" s] by simp
    with e Cons show ?thesis by simp
  qed
qed

lemma letter_runs_Nil [simp]: "letter_runs [] = []"
  by (simp add: letter_runs_def)

lemma letter_runs_unfold:
  "letter_runs s =
     (let m = takeWhile ascii_letter s
      in (if m = [] then [] else [m]) @
         (case dropWhile ascii_letter s of [] \<Rightarrow> [] | _ # r \<Rightarrow> letter_runs r))"
proof -
  have P: "pieces (\<lambda>c. \<not> ascii_letter c) s =
     (case dropWhile ascii_letter s of
        [] \<Rightarrow> [s]
      | _ # r \<Rightarrow> takeWhile ascii_letter s # pieces (\<lambda>c. \<not> ascii_letter c) r)"
    using pieces_takeWhile[of "\<lambda>c. \<not> ascii_letter c" s] unfolding not_not .
  show ?thesis
  proof (cases "dropWhile ascii_letter s")
    case Nil
    then have t: "takeWhile ascii_letter s = s"
      by (metis append_Nil2 takeWhile_dropWhile_id)
    have p: "pieces (\<lambda>c. \<not> ascii_letter c) s = [s]"
      using P unfolding Nil by simp
    show ?thesis
      unfolding letter_runs_def p Let_def t Nil by simp
  next
    case (Cons x r)
    have p: "pieces (\<lambda>c. \<not> ascii_letter c) s =
             takeWhile ascii_letter s # pieces (\<lambda>c. \<not> ascii_letter c) r"
      using P unfolding Cons by simp
    show ?thesis
      unfolding letter_runs_def p Let_def Cons by simp
  qed
qed

lemma findall_nonletter: "\<not> ascii_letter c \<Longrightarrow> findall (c # cs) = findall cs"
  by simp

text \<open>The scan of the regular expression finds the maximal runs of four letters or more.\<close>

lemma findall_letter_runs: "findall s = filter (\<lambda>w. 4 \<le> length w) (letter_runs s)"
proof (induction s rule: length_induct)
  case (1 s)
  show ?case
  proof (cases s)
    case Nil
    then show ?thesis by simp
  next
    case (Cons c cs)
    let ?m = "takeWhile ascii_letter s" and ?d = "dropWhile ascii_letter s"
    have sm: "s = ?m @ ?d" by simp
    have len: "length ?d \<le> length s" by (rule length_dropWhile_le)
    have tail: "findall ?d = filter (\<lambda>w. 4 \<le> length w)
                  (case ?d of [] \<Rightarrow> [] | _ # r \<Rightarrow> letter_runs r)"
    proof (cases ?d)
      case Nil
      show ?thesis unfolding Nil by simp
    next
      case (Cons x r)
      then have nx: "\<not> ascii_letter x" using hd_dropWhile[of ascii_letter s] by simp
      have "length r < length s" using len Cons by simp
      then have "findall r = filter (\<lambda>w. 4 \<le> length w) (letter_runs r)"
        using 1 by blast
      then show ?thesis using Cons nx by simp
    qed
    have skip: "findall s = findall ?d" if "length ?m < 4"
      using that
    proof (induction s)
      case Nil
      then show ?case by simp
    next
      case (Cons a as)
      show ?case
      proof (cases "ascii_letter a")
        case True
        then have "length (takeWhile ascii_letter as) < 4" using Cons.prems by simp
        then have "findall as = findall (dropWhile ascii_letter as)" by (rule Cons.IH)
        then show ?thesis using True Cons.prems by simp
      next
        case False
        then show ?thesis by simp
      qed
    qed
    have match: "findall s = ?m # findall ?d" if "4 \<le> length ?m"
    proof -
      have "drop (length ?m) s = ?d"
        by (metis append_eq_conv_conj sm)
      then show ?thesis using that Cons by (simp add: Let_def)
    qed
    show ?thesis
    proof (cases "4 \<le> length ?m")
      case True
      then have "?m \<noteq> []" by auto
      then show ?thesis
        using match[OF True] tail True by (subst letter_runs_unfold) (simp add: Let_def)
    next
      case False
      then have "length ?m < 4" by simp
      then show ?thesis
        using skip tail by (subst letter_runs_unfold) (simp add: Let_def)
    qed
  qed
qed

lemma findall_tokens: "findall (lower rt text) = tokens rt text"
  by (simp add: tokens_def findall_letter_runs)

subsubsection \<open>The frequency dictionary\<close>

lemma first_occurrences_set [simp]: "set (first_occurrences xs) = set xs"
  by (simp add: first_occurrences_def)

lemma first_occurrences_distinct [simp]: "distinct (first_occurrences xs)"
  by (simp add: first_occurrences_def)

lemma first_occurrences_snoc:
  "first_occurrences (xs @ [x]) =
     (if x \<in> set xs then first_occurrences xs else first_occurrences xs @ [x])"
  by (simp add: first_occurrences_def)

lemma dict_get_map:
  "dict_get (map (\<lambda>x. (x, f x)) us) w d = (if w \<in> set us then f w else d)"
  by (induction us) (auto simp: dict_get_def)

lemma dict_set_map_present:
  "distinct us \<Longrightarrow> w \<in> set us \<Longrightarrow>
   dict_set (map (\<lambda>x. (x, f x)) us) w v = map (\<lambda>x. (x, if x = w then v else f x)) us"
  by (induction us) auto

lemma dict_set_map_absent:
  "w \<notin> set us \<Longrightarrow> dict_set (map (\<lambda>x. (x, f x)) us) w v = map (\<lambda>x. (x, f x)) us @ [(w, v)]"
  by (induction us) auto

lemma count_words_snoc:
  "count_words (ws @ [w]) =
     dict_set (count_words ws) w (dict_get (count_words ws) w 0 + 1)"
  by (simp add: count_words_def)

lemma count_list_snoc:
  "count_list (ws @ [w]) x = (if x = w then count_list ws x + 1 else count_list ws x)"
  by (induction ws) auto

lemma count_words_eq:
  "count_words ws = map (\<lambda>w. (w, count_list ws w)) (first_occurrences ws)"
proof (induction ws rule: rev_induct)
  case Nil
  show ?case by (simp add: count_words_def first_occurrences_def)
next
  case (snoc w ws)
  let ?us = "first_occurrences ws"
  show ?case
  proof (cases "w \<in> set ws")
    case True
    then have g: "dict_get (count_words ws) w 0 = count_list ws w"
      by (simp add: snoc.IH dict_get_map)
    have "count_words (ws @ [w]) =
            map (\<lambda>x. (x, if x = w then count_list ws w + 1 else count_list ws x)) ?us"
      using True by (simp add: count_words_snoc g) (simp add: snoc.IH dict_set_map_present)
    also have "\<dots> = map (\<lambda>x. (x, count_list (ws @ [w]) x)) ?us"
      by (simp add: count_list_snoc)
    finally show ?thesis using True by (simp add: first_occurrences_snoc)
  next
    case False
    then have g: "dict_get (count_words ws) w 0 = 0"
      by (simp add: snoc.IH dict_get_map)
    have "count_words (ws @ [w]) = map (\<lambda>x. (x, count_list ws x)) ?us @ [(w, 1)]"
      using False by (simp add: count_words_snoc g) (simp add: snoc.IH dict_set_map_absent)
    also have "map (\<lambda>x. (x, count_list ws x)) ?us = map (\<lambda>x. (x, count_list (ws @ [w]) x)) ?us"
      using False by (auto simp: count_list_snoc)
    finally show ?thesis using False by (simp add: first_occurrences_snoc count_list_snoc)
  qed
qed

subsubsection \<open>Ranking\<close>

lemma first_index_nth: "x \<in> set xs \<Longrightarrow> xs ! first_index xs x = x"
proof -
  assume "x \<in> set xs"
  then have "length (takeWhile (\<lambda>y. y \<noteq> x) xs) < length xs"
    by (induction xs) auto
  then have "\<not> (xs ! length (takeWhile (\<lambda>y. y \<noteq> x) xs) \<noteq> x)"
    by (rule nth_length_takeWhile)
  then show ?thesis by (simp add: first_index_def)
qed

lemma first_index_less: "x \<in> set xs \<Longrightarrow> first_index xs x < length xs"
  unfolding first_index_def by (induction xs) auto

lemma first_index_inj: "inj_on (first_index xs) (set xs)"
  by (rule inj_onI) (metis first_index_nth)

lemma rank_inj: "inj_on (rank toks) (set toks)"
  by (rule inj_onI) (metis first_index_inj inj_onD rank_def snd_conv)

lemma first_index_snoc_old: "x \<in> set xs \<Longrightarrow> first_index (xs @ [y]) x = first_index xs x"
  by (simp add: first_index_def takeWhile_append1)

lemma first_index_snoc_new: "x \<notin> set xs \<Longrightarrow> first_index (xs @ [x]) x = length xs"
  unfolding first_index_def by (induction xs) auto

lemma first_occurrences_sorted:
  "sorted (map (first_index xs) (first_occurrences xs))"
proof (induction xs rule: rev_induct)
  case Nil
  show ?case by (simp add: first_occurrences_def)
next
  case (snoc x xs)
  have old: "map (first_index (xs @ [x])) (first_occurrences xs) =
             map (first_index xs) (first_occurrences xs)"
    by (simp add: first_index_snoc_old)
  show ?case
  proof (cases "x \<in> set xs")
    case True
    then show ?thesis using snoc.IH by (simp add: first_occurrences_snoc old)
  next
    case False
    have "\<forall>i \<in> set (map (first_index xs) (first_occurrences xs)). i \<le> length xs"
      using first_index_less[of _ xs] by (auto simp: less_imp_le)
    then show ?thesis
      using False snoc.IH
      by (simp add: first_occurrences_snoc first_index_snoc_new sorted_append old)
  qed
qed

lemma insort_key_lex:
  fixes f :: "'a \<Rightarrow> 'k::linorder" and g :: "'a \<Rightarrow> 'j::linorder"
  assumes "\<forall>y \<in> set ys. g x \<le> g y"
  shows "insort_key f x ys = insort_key (\<lambda>z. (f z, g z)) x ys"
  using assms by (induction ys) (auto simp: less_eq_prod_def)

lemma sort_key_lex:
  fixes f :: "'a \<Rightarrow> 'k::linorder" and g :: "'a \<Rightarrow> 'j::linorder"
  assumes "sorted (map g xs)"
  shows "sort_key f xs = sort_key (\<lambda>z. (f z, g z)) xs"
  using assms
proof (induction xs)
  case Nil
  show ?case by simp
next
  case (Cons x xs)
  then have "\<forall>y \<in> set (sort_key (\<lambda>z. (f z, g z)) xs). g x \<le> g y" by simp
  then have "insort_key f x (sort_key (\<lambda>z. (f z, g z)) xs) =
             insort_key (\<lambda>z. (f z, g z)) x (sort_key (\<lambda>z. (f z, g z)) xs)"
    by (rule insort_key_lex)
  then show ?case using Cons by simp
qed

lemma insort_key_map:
  "insort_key f (g x) (map g xs) = map g (insort_key (\<lambda>z. f (g z)) x xs)"
  by (induction xs) auto

lemma sort_key_map:
  "sort_key f (map g xs) = map g (sort_key (\<lambda>z. f (g z)) xs)"
  by (induction xs) (simp_all add: insort_key_map)

lemma sort_key_same_set:
  assumes "inj_on k (set xs)" and "distinct xs" and "distinct ys" and "set xs = set ys"
  shows "sort_key k xs = sort_key k ys"
proof (rule map_sorted_distinct_set_unique[where f = k])
  show "inj_on k (set (sort_key k xs) \<union> set (sort_key k ys))"
    using assms by simp
  show "sorted (map k (sort_key k xs))" "sorted (map k (sort_key k ys))"
    by (rule sorted_sort_key)+
  show "distinct (map k (sort_key k xs))"
    using assms by (simp add: distinct_map)
  show "distinct (map k (sort_key k ys))"
    using assms by (simp add: distinct_map)
  show "set (sort_key k xs) = set (sort_key k ys)"
    using assms by simp
qed

lemma ranked_items:
  "map fst (sorted_reverse snd (count_words ws)) = sort_key (rank ws) (remdups ws)"
proof -
  let ?us = "first_occurrences ws"
  have "map fst (sorted_reverse snd (count_words ws)) =
        map fst (sort_key (\<lambda>p. - int (snd p)) (map (\<lambda>w. (w, count_list ws w)) ?us))"
    by (simp add: sorted_reverse_def count_words_eq)
  also have "\<dots> = sort_key (\<lambda>w. - int (count_list ws w)) ?us"
    by (simp add: sort_key_map o_def)
  also have "\<dots> = sort_key (\<lambda>w. (- int (count_list ws w), first_index ws w)) ?us"
    by (rule sort_key_lex) (rule first_occurrences_sorted)
  also have "\<dots> = sort_key (rank ws) ?us"
    by (simp add: rank_def[abs_def])
  also have "\<dots> = sort_key (rank ws) (remdups ws)"
    by (rule sort_key_same_set) (simp_all add: rank_inj)
  finally show ?thesis .
qed

lemma keywords_of_eq: "keywords_of rt text = spec_keywords rt text"
  by (simp add: keywords_of_def spec_keywords_def Let_def findall_tokens take_map [symmetric]
        ranked_items)

subsubsection \<open>Maximal runs\<close>

lemma takeWhile_run:
  assumes "\<forall>c \<in> set w. P c" and "post = [] \<or> \<not> P (hd post)"
  shows "takeWhile P (w @ post) = w"
  using assms by (cases post) (simp_all add: takeWhile_append)

lemma letter_runs_sound:
  "w \<in> set (letter_runs s) \<Longrightarrow>
   w \<noteq> [] \<and> (\<forall>c \<in> set w. ascii_letter c) \<and>
   (\<exists>pre post. s = pre @ w @ post \<and> (pre = [] \<or> \<not> ascii_letter (last pre)) \<and>
      (post = [] \<or> \<not> ascii_letter (hd post)))"
proof (induction s arbitrary: w rule: length_induct)
  case (1 s)
  let ?m = "takeWhile ascii_letter s" and ?d = "dropWhile ascii_letter s"
  have sm: "s = ?m @ ?d" by simp
  from "1.prems" have "w \<in> set (if ?m = [] then [] else [?m]) \<or>
      w \<in> set (case ?d of [] \<Rightarrow> [] | _ # r \<Rightarrow> letter_runs r)"
    by (subst (asm) letter_runs_unfold) (simp add: Let_def)
  then show ?case
  proof
    assume "w \<in> set (if ?m = [] then [] else [?m])"
    then have w: "w = ?m" and ne: "w \<noteq> []" by (auto split: if_splits)
    have "?d = [] \<or> \<not> ascii_letter (hd ?d)"
      using hd_dropWhile[of ascii_letter s] by blast
    moreover have "s = [] @ w @ ?d" using w by simp
    moreover have "\<forall>c \<in> set w. ascii_letter c" unfolding w by (auto dest: set_takeWhileD)
    ultimately show ?thesis using ne by blast
  next
    assume a: "w \<in> set (case ?d of [] \<Rightarrow> [] | _ # r \<Rightarrow> letter_runs r)"
    then obtain x r where d: "?d = x # r" and wr: "w \<in> set (letter_runs r)"
      by (cases ?d) auto
    have nx: "\<not> ascii_letter x" using hd_dropWhile[of ascii_letter s] d by simp
    have "length r < length s"
      using length_dropWhile_le[of ascii_letter s] d by simp
    with 1 wr obtain pre post where ih: "w \<noteq> []" "\<forall>c \<in> set w. ascii_letter c"
      "r = pre @ w @ post" "pre = [] \<or> \<not> ascii_letter (last pre)"
      "post = [] \<or> \<not> ascii_letter (hd post)"
      by blast
    have "s = (?m @ x # pre) @ w @ post"
      using sm d ih(3) by (metis append.assoc append_Cons)
    moreover have "\<not> ascii_letter (last (?m @ x # pre))"
      using nx ih(4) by auto
    ultimately show ?thesis using ih by blast
  qed
qed

lemma letter_runs_complete:
  assumes "w \<noteq> []" and "\<forall>c \<in> set w. ascii_letter c"
    and "pre = [] \<or> \<not> ascii_letter (last pre)" and "post = [] \<or> \<not> ascii_letter (hd post)"
  shows "w \<in> set (letter_runs (pre @ w @ post))"
  using assms(3)
proof (induction pre rule: length_induct)
  case (1 pre)
  let ?s = "pre @ w @ post"
  show ?case
  proof (cases "pre = []")
    case True
    have "takeWhile ascii_letter (w @ post) = w"
      using assms(2,4) by (rule takeWhile_run)
    then show ?thesis
      using True assms(1) by (subst letter_runs_unfold) (simp add: Let_def)
  next
    case False
    with "1.prems" have nl: "\<not> ascii_letter (last pre)" by simp
    have lp: "last pre \<in> set pre" using False by simp
    have t: "takeWhile ascii_letter ?s = takeWhile ascii_letter pre"
      using lp nl by (rule takeWhile_append1)
    have dd: "dropWhile ascii_letter ?s = dropWhile ascii_letter pre @ w @ post"
      using lp nl by (rule dropWhile_append1)
    have "dropWhile ascii_letter pre \<noteq> []"
      using lp nl by (auto simp: dropWhile_eq_Nil_conv)
    then obtain x pre' where dp: "dropWhile ascii_letter pre = x # pre'"
      by (cases "dropWhile ascii_letter pre") auto
    have len: "length pre' < length pre"
      using length_dropWhile_le[of ascii_letter pre] dp by simp
    have "pre' = [] \<or> \<not> ascii_letter (last pre')"
    proof (cases "pre' = []")
      case True
      then show ?thesis by simp
    next
      case False
      have "pre = takeWhile ascii_letter pre @ x # pre'"
        using dp by (metis takeWhile_dropWhile_id)
      then have "last pre = last pre'" using False by (metis last_appendR last_ConsR list.distinct(1))
      then show ?thesis using nl by simp
    qed
    with 1 len have "w \<in> set (letter_runs (pre' @ w @ post))"
      by blast
    then show ?thesis
      by (subst letter_runs_unfold) (simp add: Let_def t dd dp)
  qed
qed

lemma tokens_iff:
  "w \<in> set (tokens rt text) \<longleftrightarrow>
     4 \<le> length w \<and> (\<forall>c \<in> set w. ascii_letter c) \<and>
     (\<exists>pre post. lower rt text = pre @ w @ post \<and>
        (pre = [] \<or> \<not> ascii_letter (last pre)) \<and> (post = [] \<or> \<not> ascii_letter (hd post)))"
proof
  assume "w \<in> set (tokens rt text)"
  then have "4 \<le> length w" and "w \<in> set (letter_runs (lower rt text))"
    by (simp_all add: tokens_def)
  then show "4 \<le> length w \<and> (\<forall>c \<in> set w. ascii_letter c) \<and>
     (\<exists>pre post. lower rt text = pre @ w @ post \<and>
        (pre = [] \<or> \<not> ascii_letter (last pre)) \<and> (post = [] \<or> \<not> ascii_letter (hd post)))"
    using letter_runs_sound[of w "lower rt text"] by blast
next
  assume a: "4 \<le> length w \<and> (\<forall>c \<in> set w. ascii_letter c) \<and>
     (\<exists>pre post. lower rt text = pre @ w @ post \<and>
        (pre = [] \<or> \<not> ascii_letter (last pre)) \<and> (post = [] \<or> \<not> ascii_letter (hd post)))"
  then have "w \<noteq> []" by auto
  with a have "w \<in> set (letter_runs (lower rt text))"
    using letter_runs_complete[of w] by metis
  with a show "w \<in> set (tokens rt text)" by (simp add: tokens_def)
qed

lemma spec_keywords_sorted:
  "sorted (map (rank (tokens rt text)) (spec_keywords rt text))"
proof -
  let ?L = "sort_key (rank (tokens rt text)) (remdups (tokens rt text))"
  have "sorted (map (rank (tokens rt text)) ?L)" by (rule sorted_sort_key)
  then have "sorted (take 10 (map (rank (tokens rt text)) ?L))" by (rule sorted_wrt_take)
  then show ?thesis by (simp add: spec_keywords_def Let_def take_map)
qed

lemma spec_keywords_top:
  assumes "k \<in> set (spec_keywords rt text)" and "w \<in> set (tokens rt text)"
    and "w \<notin> set (spec_keywords rt text)"
  shows "rank (tokens rt text) k < rank (tokens rt text) w"
proof -
  let ?r = "rank (tokens rt text)"
  let ?L = "sort_key ?r (remdups (tokens rt text))"
  have ks: "spec_keywords rt text = take 10 ?L" by (simp add: spec_keywords_def Let_def)
  have L: "?L = take 10 ?L @ drop 10 ?L" by simp
  have "w \<in> set ?L" using assms(2) by simp
  then have "w \<in> set (take 10 ?L) \<or> w \<in> set (drop 10 ?L)"
    by (metis L Un_iff set_append)
  then have wd: "w \<in> set (drop 10 ?L)" using assms(3) ks by simp
  have kt: "k \<in> set (take 10 ?L)" using assms(1) ks by simp
  have "sorted (map ?r (take 10 ?L) @ map ?r (drop 10 ?L))"
    using sorted_sort_key[of ?r "remdups (tokens rt text)"] by (metis L map_append)
  then have le: "?r k \<le> ?r w" using kt wd by (auto simp: sorted_append)
  have "k \<in> set (tokens rt text)" using kt by (auto dest: in_set_takeD)
  moreover have "k \<noteq> w" using assms(1,3) by auto
  ultimately have "?r k \<noteq> ?r w"
    using assms(2) rank_inj[of "tokens rt text"] by (auto dest: inj_onD)
  with le show ?thesis by simp
qed

text \<open>
  Claim C5. Keyword extraction lower-cases the text and takes as tokens the maximal
  runs of ASCII letters that are at least 4 long. It returns the first 10 of the
  distinct tokens ranked by falling frequency, tokens of equal frequency in the order
  of their first occurrence: the rank of a token is the pair of its negated frequency
  and the position of its first occurrence, compared lexicographically. So the result
  is what the specification's wording computes; it has at most 10 entries, all of them
  different tokens, in rising rank, and every token left out ranks behind every
  keyword returned.
\<close>

theorem keywords_top_ten_by_frequency:
  "keywords_of rt text = spec_keywords rt text \<and>
   (w \<in> set (tokens rt text) \<longleftrightarrow>
      4 \<le> length w \<and> (\<forall>c \<in> set w. ascii_letter c) \<and>
      (\<exists>pre post. lower rt text = pre @ w @ post \<and>
         (pre = [] \<or> \<not> ascii_letter (last pre)) \<and> (post = [] \<or> \<not> ascii_letter (hd post)))) \<and>
   length (keywords_of rt text) \<le> 10 \<and>
   distinct (keywords_of rt text) \<and>
   set (keywords_of rt text) \<subseteq> set (tokens rt text) \<and>
   sorted (map (rank (tokens rt text)) (keywords_of rt text)) \<and>
   (\<forall>k \<in> set (keywords_of rt text). \<forall>v \<in> set (tokens rt text).
      v \<notin> set (keywords_of rt text) \<longrightarrow> rank (tokens rt text) k < rank (tokens rt text) v)"
proof (intro conjI)
  show "keywords_of rt text = spec_keywords rt text" by (rule keywords_of_eq)
  show "w \<in> set (tokens rt text) \<longleftrightarrow>
      4 \<le> length w \<and> (\<forall>c \<in> set w. ascii_letter c) \<and>
      (\<exists>pre post. lower rt text = pre @ w @ post \<and>
         (pre = [] \<or> \<not> ascii_letter (last pre)) \<and> (post = [] \<or> \<not> ascii_letter (hd post)))"
    by (rule tokens_iff)
  show "length (keywords_of rt text) \<le> 10"
    by (simp add: keywords_of_eq spec_keywords_def Let_def)
  show "distinct (keywords_of rt text)"
    by (simp add: keywords_of_eq spec_keywords_def Let_def)
  show "set (keywords_of rt text) \<subseteq> set (tokens rt text)"
    unfolding keywords_of_eq spec_keywords_def Let_def
    using set_take_subset[of 10 "sort_key (rank (tokens rt text)) (remdups (tokens rt text))"]
    by simp
  show "sorted (map (rank (tokens rt text)) (keywords_of rt text))"
    unfolding keywords_of_eq by (rule spec_keywords_sorted)
  show "\<forall>k \<in> set (keywords_of rt text). \<forall>v \<in> set (tokens rt text).
      v \<notin> set (keywords_of rt text) \<longrightarrow> rank (tokens rt text) k < rank (tokens rt text) v"
    unfolding keywords_of_eq using spec_keywords_top by blast
qed


theorem keywords_top_ten_by_frequency_witness:
  "keywords_of ascii_runtime (py ''aaaa bbbb cccc dddd eeee ffff gggg hhhh iiii jjjj KKKK kkkk'') =
     [py ''kkkk'', py ''aaaa'', py ''bbbb'', py ''cccc'', py ''dddd'', py ''eeee'', py ''ffff'',
      py ''gggg'', py ''hhhh'', py ''iiii''] \<and>
   py ''iiii'' \<in> set (keywords_of ascii_runtime
      (py ''aaaa bbbb cccc dddd eeee ffff gggg hhhh iiii jjjj KKKK kkkk'')) \<and>
   py ''jjjj'' \<in> set (tokens ascii_runtime
      (py ''aaaa bbbb cccc dddd eeee ffff gggg hhhh iiii jjjj KKKK kkkk'')) \<and>
   py ''jjjj'' \<notin> set (keywords_of ascii_runtime
      (py ''aaaa bbbb cccc dddd eeee ffff gggg hhhh iiii jjjj KKKK kkkk'')) \<and>
   rank (tokens ascii_runtime (py ''aaaa bbbb cccc dddd eeee ffff gggg hhhh iiii jjjj KKKK kkkk''))
     (py ''iiii'') <
   rank (tokens ascii_runtime (py ''aaaa bbbb cccc dddd eeee ffff gggg hhhh iiii jjjj KKKK kkkk''))
     (py ''jjjj'') \<and>
   list_all ascii_letter (py ''jjjj'') \<and>
   (\<exists>pre post.
      lower ascii_runtime (py ''aaaa bbbb cccc dddd eeee ffff gggg hhhh iiii jjjj KKKK kkkk'') =
        pre @ py ''jjjj'' @ post \<and>
      (pre = [] \<or> \<not> ascii_letter (last pre)) \<and> (post = [] \<or> \<not> ascii_letter (hd post)))"
proof -
  let ?T = "py ''aaaa bbbb cccc dddd eeee ffff gggg hhhh iiii jjjj KKKK kkkk''"
  let ?toks = "[py ''aaaa'', py ''bbbb'', py ''cccc'', py ''dddd'', py ''eeee'', py ''ffff'',
      py ''gggg'', py ''hhhh'', py ''iiii'', py ''jjjj'', py ''kkkk'', py ''kkkk'']"
  have f: "findall (ascii_lower ?T) = ?toks"
    by (simp add: ascii_lower_def py_def ascii_letter_def Let_def)
  have tk: "tokens ascii_runtime ?T = ?toks"
    using findall_tokens[of ascii_runtime ?T] f by (simp add: ascii_runtime_def)
  have c: "count_words ?toks =
     [(py ''aaaa'', 1), (py ''bbbb'', 1), (py ''cccc'', 1), (py ''dddd'', 1), (py ''eeee'', 1),
      (py ''ffff'', 1), (py ''gggg'', 1), (py ''hhhh'', 1), (py ''iiii'', 1), (py ''jjjj'', 1),
      (py ''kkkk'', 2)]"
    by (simp add: count_words_def dict_get_def py_def)
  have k: "keywords_of ascii_runtime ?T =
     [py ''kkkk'', py ''aaaa'', py ''bbbb'', py ''cccc'', py ''dddd'', py ''eeee'', py ''ffff'',
      py ''gggg'', py ''hhhh'', py ''iiii'']"
    by (simp add: keywords_of_def ascii_runtime_def f c sorted_reverse_def)
  have a: "py ''iiii'' \<in> set (keywords_of ascii_runtime ?T)"
    unfolding k by simp
  have b: "py ''jjjj'' \<in> set (tokens ascii_runtime ?T)"
    unfolding tk by simp
  have n: "py ''jjjj'' \<notin> set (keywords_of ascii_runtime ?T)"
    unfolding k by (simp add: py_def)
  note t = keywords_top_ten_by_frequency [of ascii_runtime ?T "py ''jjjj''"]
  note run = t [THEN conjunct2, THEN conjunct1, THEN iffD1, OF b]
  note top = t [THEN conjunct2, THEN conjunct2, THEN conjunct2, THEN conjunct2, THEN conjunct2,
                THEN conjunct2, rule_format, OF a b n]
  have letters: "list_all ascii_letter (py ''jjjj'')"
    using run [THEN conjunct2, THEN conjunct1] by (simp add: list_all_iff)
  show ?thesis
    by (intro conjI) (rule k a b n top letters run [THEN conjunct2, THEN conjunct2])+
qed

subsection \<open>Text extraction\<close>

lemma split_on_not_Nil [simp]: "split_on sep s \<noteq> []"
  by (subst split_on.simps) (simp split: list.splits)

lemma split_on_no_sep: "sep \<notin> set s \<Longrightarrow> split_on sep s = [s]"
proof -
  assume "sep \<notin> set s"
  then have "dropWhile (\<lambda>c. c \<noteq> sep) s = []"
    by (auto simp: dropWhile_eq_Nil_conv)
  then show ?thesis
    by (subst split_on.simps) (simp only: list.case)
qed

lemma last_split_on_append:
  "last (split_on sep (pre @ sep # suf)) = last (split_on sep suf)"
proof (induction pre rule: length_induct)
  case (1 pre)
  show ?case
  proof (cases "sep \<in> set pre")
    case True
    then have "\<exists>x \<in> set pre. \<not> x \<noteq> sep" by simp
    then obtain x where x: "x \<in> set pre" "\<not> x \<noteq> sep" by blast
    have d: "dropWhile (\<lambda>c. c \<noteq> sep) (pre @ sep # suf) =
             dropWhile (\<lambda>c. c \<noteq> sep) pre @ sep # suf"
      using x by (rule dropWhile_append1)
    have "dropWhile (\<lambda>c. c \<noteq> sep) pre \<noteq> []"
      using True by (auto simp: dropWhile_eq_Nil_conv)
    then obtain y pre' where p: "dropWhile (\<lambda>c. c \<noteq> sep) pre = y # pre'"
      by (cases "dropWhile (\<lambda>c. c \<noteq> sep) pre") auto
    have "length pre' < length pre"
      using length_dropWhile_le[of "\<lambda>c. c \<noteq> sep" pre] p by simp
    then have ih: "last (split_on sep (pre' @ sep # suf)) = last (split_on sep suf)"
      using 1 by blast
    have "split_on sep (pre @ sep # suf) =
          takeWhile (\<lambda>c. c \<noteq> sep) (pre @ sep # suf) # split_on sep (pre' @ sep # suf)"
      by (subst split_on.simps) (simp only: d p append_Cons list.case)
    then show ?thesis using ih by simp
  next
    case False
    then have "dropWhile (\<lambda>c. c \<noteq> sep) (pre @ sep # suf) = sep # suf"
      by (simp add: dropWhile_append)
    then have "split_on sep (pre @ sep # suf) =
          takeWhile (\<lambda>c. c \<noteq> sep) (pre @ sep # suf) # split_on sep suf"
      by (subst split_on.simps) (simp only: list.case)
    then show ?thesis by simp
  qed
qed

lemma extension_after_last_dot:
  "46 \<notin> set suf \<Longrightarrow> last (split_on 46 (pre @ [46] @ suf)) = suf"
  using last_split_on_append[of 46 pre suf] by (simp add: split_on_no_sep)

lemma utf8_decode_ascii:
  "\<forall>b \<in> set bs. b < 0x80 \<Longrightarrow> utf8_decode_ignore bs = map unat bs"
  by (induction bs) simp_all

lemma py_bytes_ascii:
  "\<forall>c \<in> set s. of_char c < (128::nat) \<Longrightarrow>
   utf8_decode_ignore (map (\<lambda>c. of_nat (of_char c)) s) = py s"
proof (induction s)
  case Nil
  show ?case by (simp add: py_def)
next
  case (Cons c s)
  then have lt: "of_char c < (128::nat)" by simp
  then have w: "(of_nat (of_char c) :: byte) < 0x80"
    by (simp add: word_less_nat_alt unat_of_nat)
  have u: "unat (of_nat (of_char c) :: byte) = of_char c"
    using lt by (simp add: unat_of_nat)
  show ?case using Cons w u by (simp add: py_def)
qed

text \<open>
  Claim C6, as amended. With the store configured, an upload whose extension is none
  of \<open>pdf\<close>, \<open>docx\<close> and \<open>doc\<close> is answered with its bytes decoded as UTF-8, ill-formed
  sequences dropped. The extension is the lower-cased part of the file name behind its
  last dot, or the whole lower-cased name when it has no dot. Bytes below 128 decode
  to themselves.
\<close>

theorem extract_text_decodes_other_extensions:
  "(db \<noteq> None \<and> extension rt file \<noteq> py ''pdf'' \<and> extension rt file \<noteq> py ''docx'' \<and>
    extension rt file \<noteq> py ''doc'' \<longrightarrow>
      extract_text rt libs db file = Inr (utf8_decode_ignore (file_bytes file))) \<and>
   (filename file = Some (pre @ [46] @ suf) \<and> 46 \<notin> set suf \<longrightarrow>
      extension rt file = lower rt suf) \<and>
   (filename file = Some name \<and> 46 \<notin> set name \<longrightarrow> extension rt file = lower rt name) \<and>
   ((\<forall>b \<in> set (file_bytes file). b < 0x80) \<longrightarrow>
      utf8_decode_ignore (file_bytes file) = map unat (file_bytes file))"
  by (auto simp: extract_text_def Let_def extension_def extension_after_last_dot
        split_on_no_sep utf8_decode_ascii simp del: append.simps)

lemma hello_world_decoded:
  "utf8_decode_ignore (ascii_bytes ''hello\<newline>world'') = py ''hello\<newline>world''"
  unfolding ascii_bytes_def by (rule py_bytes_ascii) simp

theorem extract_text_decodes_other_extensions_witness:
  "Some empty_store \<noteq> None \<and>
   extension ascii_runtime
     \<lparr>filename = Some (py ''notes'' @ [46] @ py ''TXT''), file_bytes = ascii_bytes ''hello\<newline>world''\<rparr> =
     py ''txt'' \<and>
   py ''txt'' \<noteq> py ''pdf'' \<and> py ''txt'' \<noteq> py ''docx'' \<and> py ''txt'' \<noteq> py ''doc'' \<and>
   extract_text ascii_runtime \<lparr>PdfReader = None, docx = None\<rparr> (Some empty_store)
     \<lparr>filename = Some (py ''notes'' @ [46] @ py ''TXT''), file_bytes = ascii_bytes ''hello\<newline>world''\<rparr> =
     Inr (py ''hello\<newline>world'') \<and>
   46 \<notin> set (py ''TXT'') \<and> 46 \<notin> set (py ''README'') \<and>
   extension ascii_runtime
     \<lparr>filename = Some (py ''README''), file_bytes = ascii_bytes ''hello\<newline>world''\<rparr> = py ''readme'' \<and>
   list_all (\<lambda>b. b < 0x80) (ascii_bytes ''hello\<newline>world'') \<and>
   utf8_decode_ignore (ascii_bytes ''hello\<newline>world'') =
     map unat (ascii_bytes ''hello\<newline>world'')"
proof -
  let ?f = "\<lparr>filename = Some (py ''notes'' @ [46] @ py ''TXT''),
             file_bytes = ascii_bytes ''hello\<newline>world''\<rparr>"
  let ?g = "\<lparr>filename = Some (py ''README''), file_bytes = ascii_bytes ''hello\<newline>world''\<rparr>"
  let ?libs = "\<lparr>PdfReader = None, docx = None\<rparr>"
  note t = extract_text_decodes_other_extensions
             [of "Some empty_store" ascii_runtime ?f ?libs "py ''notes''" "py ''TXT''" "py ''README''"]
  note u = extract_text_decodes_other_extensions
             [of "Some empty_store" ascii_runtime ?g ?libs "py ''notes''" "py ''TXT''" "py ''README''"]
  have d1: "46 \<notin> set (py ''TXT'')" by (simp add: py_def)
  have d2: "46 \<notin> set (py ''README'')" by (simp add: py_def)
  have e: "extension ascii_runtime ?f = py ''txt''"
    using t d1 by (simp add: ascii_runtime_def ascii_lower_def py_def)
  have e2: "extension ascii_runtime ?g = py ''readme''"
    using u d2 by (simp add: ascii_runtime_def ascii_lower_def py_def)
  have n: "py ''txt'' \<noteq> py ''pdf''" "py ''txt'' \<noteq> py ''docx''" "py ''txt'' \<noteq> py ''doc''"
    by (simp_all add: py_def)
  have r: "extract_text ascii_runtime ?libs (Some empty_store) ?f = Inr (py ''hello\<newline>world'')"
    using t e n by (simp add: hello_world_decoded)
  have a: "\<forall>b \<in> set (ascii_bytes ''hello\<newline>world''). b < 0x80"
    by (simp add: ascii_bytes_def)
  have m: "utf8_decode_ignore (ascii_bytes ''hello\<newline>world'') =
           map unat (ascii_bytes ''hello\<newline>world'')"
    using t a by simp
  have s: "Some empty_store \<noteq> None" by simp
  have a': "list_all (\<lambda>b. b < 0x80) (ascii_bytes ''hello\<newline>world'')"
    using a by (simp add: list_all_iff)
  show ?thesis
    by (intro conjI; fact s e n r d1 d2 e2 a' m)
qed

text \<open>
  The claim as it was stated fails for the extension \<open>doc\<close>, which is neither \<open>pdf\<close> nor
  \<open>docx\<close> and goes to the DOCX reader all the same, whether that reader is absent or
  present; and it fails where the store is not configured.
\<close>

theorem extract_text_doc_counterexample:
  "extension ascii_runtime \<lparr>filename = Some (py ''cv.doc''), file_bytes = ascii_bytes ''hello''\<rparr> =
     py ''doc'' \<and>
   py ''doc'' \<noteq> py ''pdf'' \<and> py ''doc'' \<noteq> py ''docx'' \<and>
   utf8_decode_ignore (ascii_bytes ''hello'') = py ''hello'' \<and>
   extract_text ascii_runtime \<lparr>PdfReader = None, docx = None\<rparr> (Some empty_store)
     \<lparr>filename = Some (py ''cv.doc''), file_bytes = ascii_bytes ''hello''\<rparr> =
     Inl (HTTPException 400 (py ''DOCX support not available'')) \<and>
   extract_text ascii_runtime \<lparr>PdfReader = None, docx = Some no_paragraphs\<rparr> (Some empty_store)
     \<lparr>filename = Some (py ''cv.doc''), file_bytes = ascii_bytes ''hello''\<rparr> = Inr (py '''') \<and>
   py '''' \<noteq> py ''hello'' \<and>
   extract_text ascii_runtime \<lparr>PdfReader = None, docx = None\<rparr> None
     \<lparr>filename = Some (py ''notes.txt''), file_bytes = ascii_bytes ''hello''\<rparr> =
     Inl (HTTPException 500 (py ''Database not configured''))"
proof -
  have h: "utf8_decode_ignore (ascii_bytes ''hello'') = py ''hello''"
    unfolding ascii_bytes_def by (rule py_bytes_ascii) simp
  have e: "extension ascii_runtime
             \<lparr>filename = Some (py ''cv.doc''), file_bytes = ascii_bytes ''hello''\<rparr> = py ''doc''"
    by (simp add: extension_def ascii_runtime_def ascii_lower_def py_def split_on.simps)
  show ?thesis
    unfolding extract_text_def Let_def e h
    by (simp add: not_configured_def no_paragraphs_def strip_def lstrip_def rstrip_def py_def)
qed

end
